theory Spec2Isabelle
  imports Main "HOL-Library.Sublist"
begin

section \<open>Python values used by \<^verbatim>\<open>langchain_utils.py\<close>\<close>

text \<open>
  The f-strings of \<^verbatim>\<open>load_memory_variables\<close> render the integer
  \<^verbatim>\<open>page_number + 1\<close> with Python's \<^verbatim>\<open>str\<close>: decimal digits, most
  significant first, no leading zero, a minus sign in front of a negative number.
\<close>

definition digit_char :: "nat \<Rightarrow> char" where
  "digit_char d = ''0123456789'' ! d"

fun str_nat :: "nat \<Rightarrow> string" where
  "str_nat n = (if n < 10 then [digit_char n] else str_nat (n div 10) @ [digit_char (n mod 10)])"

declare str_nat.simps [simp del]

definition str_int :: "int \<Rightarrow> string" where
  "str_int i = (if i < 0 then CHR ''-'' # str_nat (nat (- i)) else str_nat (nat i))"

text \<open>The line break \<^verbatim>\<open>\n\<close> of the f-strings.\<close>

abbreviation newline :: string where
  "newline \<equiv> [CHR 0x0A]"

text \<open>
  The slice \<^verbatim>\<open>xs[:k]\<close> for a Python integer \<open>k\<close>: the first \<open>k\<close> elements when
  \<open>k\<close> is not negative, and all but the last \<open>-k\<close> elements when it is.
\<close>

definition slice_to :: "'a list \<Rightarrow> int \<Rightarrow> 'a list" where
  "slice_to xs k = (if k < 0 then take (nat (int (length xs) + k)) xs else take (nat k) xs)"

section \<open>Data model\<close>

text \<open>
  A retrieved document as \<^verbatim>\<open>load_memory_variables\<close> reads it: \<^verbatim>\<open>page_content\<close>
  and the three entries \<^verbatim>\<open>'title'\<close>, \<^verbatim>\<open>'source'\<close> and \<^verbatim>\<open>'page'\<close> of its
  \<^verbatim>\<open>metadata\<close> dictionary. The documents come from \<^verbatim>\<open>search_faiss_index\<close>
  (module \<^verbatim>\<open>search_indexing\<close>), whose result is a parameter of the model.
\<close>

record document =
  page_content :: string
  metadata_title :: string
  metadata_source :: string
  metadata_page :: int

text \<open>
  The fields of \<^verbatim>\<open>SnippetsBufferWindowMemory\<close> that the class declares or reads:
  \<^verbatim>\<open>index\<close>, \<^verbatim>\<open>pages\<close>, \<^verbatim>\<open>snippets\<close>, and the window size \<^verbatim>\<open>k\<close> of the
  base class, a Python integer.
\<close>

record 'i memory =
  self_index :: 'i
  self_pages :: "int list"
  self_snippets :: "string list"
  self_k :: int

datatype error = KeyError string | RetrievalFailure

section \<open>\<^verbatim>\<open>SnippetsBufferWindowMemory.__init__\<close>\<close>

text \<open>
  The constructor hands every keyword argument to the base class, which stores \<^verbatim>\<open>k\<close>
  as given, and then reads \<^verbatim>\<open>kwargs['index']\<close>, a \<^verbatim>\<open>KeyError\<close> when the caller
  gave none. \<^verbatim>\<open>pages\<close> and \<^verbatim>\<open>snippets\<close> start as the empty lists of the class body.
\<close>

definition SnippetsBufferWindowMemory_init :: "int \<Rightarrow> 'i option \<Rightarrow> error + 'i memory" where
  "SnippetsBufferWindowMemory_init kw_k kw_index =
     (case kw_index of
        None \<Rightarrow> Inl (KeyError ''index'')
      | Some i \<Rightarrow> Inr \<lparr>self_index = i, self_pages = [], self_snippets = [], self_k = kw_k\<rparr>)"

text \<open>The one caller, \<^verbatim>\<open>initialize_chat_conversation\<close>, passes the constant 3.\<close>

definition prompt_number_snippets :: int where
  "prompt_number_snippets = 3"

definition snippets_memory :: "'i \<Rightarrow> error + 'i memory" where
  "snippets_memory index = SnippetsBufferWindowMemory_init prompt_number_snippets (Some index)"

section \<open>\<^verbatim>\<open>SnippetsBufferWindowMemory.load_memory_variables\<close>\<close>

text \<open>Lines 40 to 48: the block built in \<^verbatim>\<open>snippet_to_add\<close> by successive \<^verbatim>\<open>+=\<close>.\<close>

definition snippet_to_add :: "document \<Rightarrow> string" where
  "snippet_to_add snippet =
     (let page_number = metadata_page snippet;
          s0 = [];
          s1 = (if metadata_title snippet = metadata_source snippet
                then s0 @ (metadata_source snippet @ newline)
                else s0 @ (''['' @ metadata_title snippet @ '']('' @ metadata_source snippet
                           @ '')'' @ newline));
          s2 = s1 @ (''<START_SNIPPET_PAGE_'' @ str_int (page_number + 1) @ ''>'' @ newline);
          s3 = s2 @ (page_content snippet @ newline);
          s4 = s3 @ (''<END_SNIPPET_PAGE_'' @ str_int (page_number + 1) @ ''>'' @ newline)
      in s4)"

text \<open>
  Lines 37 to 51: the loop over the retrieved documents. A document whose block is not
  yet in \<^verbatim>\<open>self.snippets\<close> has its page and its block appended; the test sees the
  blocks appended by earlier rounds of the same loop.
\<close>

fun add_similar_snippets :: "document list \<Rightarrow> 'i memory \<Rightarrow> 'i memory" where
  "add_similar_snippets [] self = self"
| "add_similar_snippets (snippet # rest) self =
     (let page_number = metadata_page snippet;
          block = snippet_to_add snippet
      in if block \<notin> set (self_snippets self)
         then add_similar_snippets rest
                (self\<lparr>self_pages := self_pages self @ [page_number],
                      self_snippets := self_snippets self @ [block]\<rparr>)
         else add_similar_snippets rest self)"

text \<open>
  Lines 34 to 56: everything \<^verbatim>\<open>load_memory_variables\<close> does to the object once the
  search has returned \<open>similar_snippets\<close>.
\<close>

definition update_snippets :: "'i memory \<Rightarrow> document list \<Rightarrow> 'i memory" where
  "update_snippets self similar_snippets =
     (let self1 = self\<lparr>self_snippets := rev (self_snippets self)\<rparr>;
          self2 = self1\<lparr>self_pages := rev (self_pages self1)\<rparr>;
          self3 = add_similar_snippets similar_snippets self2;
          self4 = self3\<lparr>self_snippets := slice_to (rev (self_snippets self3)) (self_k self3)\<rparr>;
          self5 = self4\<lparr>self_pages := slice_to (rev (self_pages self4)) (self_k self4)\<rparr>
      in self5)"

text \<open>
  The whole method. \<open>search\<close> stands for \<^verbatim>\<open>search_faiss_index\<close>; it may fail. The
  result is the updated object and the returned dictionary \<^verbatim>\<open>{'snippets': to_return}\<close>.
\<close>

definition load_memory_variables ::
  "('i \<Rightarrow> 'q \<Rightarrow> error + document list) \<Rightarrow> 'i memory \<Rightarrow> (string \<rightharpoonup> 'q)
     \<Rightarrow> error + ('i memory \<times> (string \<rightharpoonup> string))" where
  "load_memory_variables search self inputs =
     (case inputs ''user_messages_history'' of
        None \<Rightarrow> Inl (KeyError ''user_messages_history'')
      | Some query \<Rightarrow>
          (case search (self_index self) query of
             Inl e \<Rightarrow> Inl e
           | Inr similar_snippets \<Rightarrow>
               (let self' = update_snippets self similar_snippets;
                    to_return = concat (self_snippets self')
                in Inr (self', [''snippets'' \<mapsto> to_return]))))"

section \<open>Definitions used to state the properties\<close>

text \<open>
  The documents that one run of the loop admits, in the order it admits them, for the
  blocks \<open>seen\<close> that \<^verbatim>\<open>self.snippets\<close> holds when the loop starts.
\<close>

fun new_docs :: "string list \<Rightarrow> document list \<Rightarrow> document list" where
  "new_docs seen [] = []"
| "new_docs seen (d # ds) =
     (if snippet_to_add d \<in> set seen then new_docs seen ds
      else d # new_docs (seen @ [snippet_to_add d]) ds)"

text \<open>
  The positions of a retrieval result whose documents are new: the block is not among
  \<open>seen\<close>, and no earlier document of the same result formats to the same block.
\<close>

definition first_occurrences :: "string list \<Rightarrow> document list \<Rightarrow> nat list" where
  "first_occurrences seen cs =
     filter (\<lambda>i. snippet_to_add (cs ! i) \<notin> set seen
                \<and> (\<forall>j<i. snippet_to_add (cs ! j) \<noteq> snippet_to_add (cs ! i)))
       [0..<length cs]"

text \<open>A conversation: the updates of a list of retrieval results, one after the other.\<close>

definition run_updates :: "'i memory \<Rightarrow> document list list \<Rightarrow> 'i memory" where
  "run_updates self batches = foldl update_snippets self batches"

text \<open>
  The reference merge of the design notes, on a sequence of (page, block) pairs: the
  held sequence is a stack with its top at the front; every retrieved document whose
  block the stack does not hold yet is pushed, in retrieval order; the first \<open>k\<close>
  elements are kept.
\<close>

fun push_new_unique :: "document list \<Rightarrow> (int \<times> string) list \<Rightarrow> (int \<times> string) list" where
  "push_new_unique [] held = held"
| "push_new_unique (c # cs) held =
     (if snippet_to_add c \<in> snd ` set held then push_new_unique cs held
      else push_new_unique cs ((metadata_page c, snippet_to_add c) # held))"

definition stack_merge :: "(int \<times> string) list \<Rightarrow> document list \<Rightarrow> int \<Rightarrow> (int \<times> string) list" where
  "stack_merge held cs k = take (nat k) (push_new_unique cs held)"

text \<open>
  Reading a block back: the decimal number between the last underscore and the closing
  \<^verbatim>\<open>>\<close> of the end marker is \<^verbatim>\<open>page + 1\<close>.
\<close>

definition digit_val :: "char \<Rightarrow> nat" where
  "digit_val c = length (takeWhile (\<lambda>d. d \<noteq> c) ''0123456789'')"

definition parse_nat :: "string \<Rightarrow> nat" where
  "parse_nat s = foldl (\<lambda>a c. 10 * a + digit_val c) 0 s"

definition parse_int :: "string \<Rightarrow> int" where
  "parse_int s =
     (case s of
        [] \<Rightarrow> 0
      | c # r \<Rightarrow> if c = CHR ''-'' then - int (parse_nat r) else int (parse_nat s))"

definition page_of_block :: "string \<Rightarrow> int" where
  "page_of_block b =
     parse_int (rev (takeWhile (\<lambda>c. c \<noteq> CHR ''_'') (drop 2 (rev b)))) - 1"

text \<open>The header line of a block: its characters up to the first line break.\<close>

definition header_line :: "string \<Rightarrow> string" where
  "header_line b = takeWhile (\<lambda>c. c \<noteq> CHR 0x0A) b"

text \<open>Three documents and a window of size two, for the worked examples.\<close>

definition docA :: document where
  "docA = \<lparr>page_content = ''alpha'', metadata_title = ''a.pdf'',
            metadata_source = ''a.pdf'', metadata_page = 0\<rparr>"

definition docB :: document where
  "docB = \<lparr>page_content = ''beta'', metadata_title = ''Book B'',
            metadata_source = ''b.pdf'', metadata_page = 9\<rparr>"

definition docC :: document where
  "docC = \<lparr>page_content = ''gamma'', metadata_title = ''c.pdf'',
            metadata_source = ''c.pdf'', metadata_page = 41\<rparr>"

definition window2 :: "unit memory" where
  "window2 = \<lparr>self_index = (), self_pages = [], self_snippets = [], self_k = 2\<rparr>"

section \<open>The loop and the update, as list equations\<close>

lemma add_similar_snippets_index [simp]:
  "self_index (add_similar_snippets cs m) = self_index m"
  by (induction cs arbitrary: m) (simp_all add: Let_def)

lemma add_similar_snippets_k [simp]:
  "self_k (add_similar_snippets cs m) = self_k m"
  by (induction cs arbitrary: m) (simp_all add: Let_def)

lemma add_similar_snippets_snippets:
  "self_snippets (add_similar_snippets cs m) =
     self_snippets m @ map snippet_to_add (new_docs (self_snippets m) cs)"
  by (induction cs arbitrary: m) (simp_all add: Let_def)

lemma add_similar_snippets_pages:
  "self_pages (add_similar_snippets cs m) =
     self_pages m @ map metadata_page (new_docs (self_snippets m) cs)"
  by (induction cs arbitrary: m) (simp_all add: Let_def)

lemma new_docs_cong: "set S = set S' \<Longrightarrow> new_docs S cs = new_docs S' cs"
proof (induction cs arbitrary: S S')
  case Nil
  show ?case by simp
next
  case (Cons c cs)
  have "new_docs (S @ [snippet_to_add c]) cs = new_docs (S' @ [snippet_to_add c]) cs"
    by (rule Cons.IH) (simp add: Cons.prems)
  moreover have "new_docs S cs = new_docs S' cs"
    by (rule Cons.IH) (rule Cons.prems)
  ultimately show ?case by (simp add: Cons.prems)
qed

lemma new_docs_subset: "set (new_docs S cs) \<subseteq> set cs"
  by (induction cs arbitrary: S) auto

lemma new_docs_fresh: "d \<in> set (new_docs S cs) \<Longrightarrow> snippet_to_add d \<notin> set S"
proof (induction cs arbitrary: S)
  case Nil
  then show ?case by simp
next
  case (Cons c cs)
  then show ?case by (fastforce split: if_splits)
qed

lemma new_docs_distinct: "distinct (map snippet_to_add (new_docs S cs))"
proof (induction cs arbitrary: S)
  case Nil
  show ?case by simp
next
  case (Cons c cs)
  have "snippet_to_add c \<notin> snippet_to_add ` set (new_docs (S @ [snippet_to_add c]) cs)"
  proof
    assume "snippet_to_add c \<in> snippet_to_add ` set (new_docs (S @ [snippet_to_add c]) cs)"
    then obtain d where d: "d \<in> set (new_docs (S @ [snippet_to_add c]) cs)"
      and eq: "snippet_to_add c = snippet_to_add d" by blast
    from new_docs_fresh [OF d] eq show False by simp
  qed
  with Cons.IH show ?case by simp
qed

lemma new_docs_covers:
  "d \<in> set cs \<Longrightarrow> snippet_to_add d \<in> set S \<union> snippet_to_add ` set (new_docs S cs)"
proof (induction cs arbitrary: S)
  case Nil
  then show ?case by simp
next
  case (Cons c cs)
  show ?case
  proof (cases "d = c")
    case True
    then show ?thesis by simp
  next
    case False
    with Cons.prems have d: "d \<in> set cs" by simp
    show ?thesis
      using Cons.IH [OF d, of S] Cons.IH [OF d, of "S @ [snippet_to_add c]"] by auto
  qed
qed

lemma new_docs_Nil_iff: "new_docs S cs = [] \<longleftrightarrow> snippet_to_add ` set cs \<subseteq> set S"
proof
  assume "new_docs S cs = []"
  then show "snippet_to_add ` set cs \<subseteq> set S"
    using new_docs_covers [of _ cs S] by auto
next
  assume "snippet_to_add ` set cs \<subseteq> set S"
  then show "new_docs S cs = []"
    by (induction cs) auto
qed

lemma update_snippets_index [simp]: "self_index (update_snippets m cs) = self_index m"
  by (simp add: update_snippets_def Let_def)

lemma update_snippets_k [simp]: "self_k (update_snippets m cs) = self_k m"
  by (simp add: update_snippets_def Let_def)

lemma update_snippets_snippets:
  "self_snippets (update_snippets m cs) =
     slice_to (rev (map snippet_to_add (new_docs (self_snippets m) cs)) @ self_snippets m) (self_k m)"
  by (simp add: update_snippets_def Let_def add_similar_snippets_snippets
      new_docs_cong [of "rev (self_snippets m)" "self_snippets m"])

lemma update_snippets_pages:
  "self_pages (update_snippets m cs) =
     slice_to (rev (map metadata_page (new_docs (self_snippets m) cs)) @ self_pages m) (self_k m)"
  by (simp add: update_snippets_def Let_def add_similar_snippets_pages
      new_docs_cong [of "rev (self_snippets m)" "self_snippets m"])

lemma slice_to_fits: "int (length xs) \<le> k \<Longrightarrow> slice_to xs k = xs"
  by (simp add: slice_to_def)

lemma length_slice_to: "0 \<le> k \<Longrightarrow> int (length (slice_to xs k)) \<le> k"
  by (simp add: slice_to_def)

lemma slice_to_is_take: "\<exists>n. slice_to xs k = take n xs"
  by (auto simp: slice_to_def)

lemma distinct_slice_to: "distinct xs \<Longrightarrow> distinct (slice_to xs k)"
  by (simp add: slice_to_def)

lemma slice_to_map: "slice_to (map f xs) k = map f (slice_to xs k)"
  by (simp add: slice_to_def take_map)

lemma set_slice_to: "set (slice_to xs k) \<subseteq> set xs"
  by (auto simp: slice_to_def dest: in_set_takeD)

lemma slice_to_nonneg: "0 \<le> k \<Longrightarrow> slice_to xs k = take (nat k) xs"
  by (simp add: slice_to_def)

text \<open>
  The method itself: it fails with a \<^verbatim>\<open>KeyError\<close> when the inputs lack the key and
  with the error of the search when the search fails, leaving the object alone; when
  the search returns \<open>cs\<close> it leaves the object that \<open>update_snippets\<close> computes and
  returns the concatenation of the held blocks.
\<close>

lemma load_memory_variables_cases:
  "load_memory_variables search m inputs =
     (case inputs ''user_messages_history'' of
        None \<Rightarrow> Inl (KeyError ''user_messages_history'')
      | Some q \<Rightarrow>
          (case search (self_index m) q of
             Inl e \<Rightarrow> Inl e
           | Inr cs \<Rightarrow> Inr (update_snippets m cs,
                            [''snippets'' \<mapsto> concat (self_snippets (update_snippets m cs))])))"
  by (simp add: load_memory_variables_def Let_def split: option.splits sum.splits)

lemma load_memory_variables_updates:
  assumes "inputs ''user_messages_history'' = Some q" and "search (self_index m) q = Inr cs"
  shows "map_sum id fst (load_memory_variables search m inputs) = Inr (update_snippets m cs)"
  using assms by (simp add: load_memory_variables_def Let_def)

section \<open>Frame: an empty retrieval\<close>

text \<open>
  C6. For every window whose \<^verbatim>\<open>snippets\<close> and \<^verbatim>\<open>pages\<close> hold at most \<open>k\<close>
  entries, an update whose retrieval returns no document leaves the whole object as it
  was: the two reversals cancel and the slice keeps everything.
\<close>

theorem empty_retrieval_unchanged:
  assumes "int (length (self_snippets m)) \<le> self_k m"
    and "int (length (self_pages m)) \<le> self_k m"
  shows "update_snippets m [] = m"
  using assms by (simp add: update_snippets_def Let_def slice_to_fits)

theorem empty_retrieval_unchanged_witness:
  "update_snippets (update_snippets window2 [docA, docB]) []
     = update_snippets window2 [docA, docB]
   \<and> self_snippets (update_snippets window2 [docA, docB]) \<noteq> []"
proof -
  have s: "self_snippets (update_snippets window2 [docA, docB])
             = [snippet_to_add docB, snippet_to_add docA]"
    by code_simp
  have p: "self_pages (update_snippets window2 [docA, docB]) = [9, 0]"
    by code_simp
  have k: "self_k window2 = 2"
    by (simp add: window2_def)
  show ?thesis
    using empty_retrieval_unchanged [of "update_snippets window2 [docA, docB]"]
    by (simp add: s p k)
qed

section \<open>Invariants of a conversation\<close>

lemma run_updates_snoc:
  "run_updates m (batches @ [cs]) = update_snippets (run_updates m batches) cs"
  by (simp add: run_updates_def)

lemma run_updates_k [simp]: "self_k (run_updates m batches) = self_k m"
  by (induction batches rule: rev_induct) (simp_all add: run_updates_def)

lemma update_snippets_distinct:
  assumes "distinct (self_snippets m)"
  shows "distinct (self_snippets (update_snippets m cs))"
proof -
  let ?N = "map snippet_to_add (new_docs (self_snippets m) cs)"
  have "set ?N \<inter> set (self_snippets m) = {}"
    using new_docs_fresh [of _ "self_snippets m" cs] by auto
  then have "distinct (rev ?N @ self_snippets m)"
    using assms new_docs_distinct [of "self_snippets m" cs] by simp
  then show ?thesis
    unfolding update_snippets_snippets by (rule distinct_slice_to)
qed

lemma run_updates_distinct:
  "distinct (self_snippets m) \<Longrightarrow> distinct (self_snippets (run_updates m batches))"
proof (induction batches rule: rev_induct)
  case Nil
  then show ?case by (simp add: run_updates_def)
next
  case (snoc cs batches)
  then show ?case by (simp add: run_updates_snoc update_snippets_distinct)
qed

lemma update_snippets_length:
  assumes "0 \<le> self_k m"
  shows "int (length (self_snippets (update_snippets m cs))) \<le> self_k m"
    and "int (length (self_pages (update_snippets m cs))) \<le> self_k m"
  using assms by (simp_all add: update_snippets_snippets update_snippets_pages length_slice_to)

lemma run_updates_length:
  assumes "0 \<le> self_k m" "int (length (self_snippets m)) \<le> self_k m"
    "int (length (self_pages m)) \<le> self_k m"
  shows "int (length (self_snippets (run_updates m batches))) \<le> self_k m
       \<and> int (length (self_pages (run_updates m batches))) \<le> self_k m"
proof (cases batches rule: rev_cases)
  case Nil
  with assms show ?thesis by (simp add: run_updates_def)
next
  case (snoc bs cs)
  show ?thesis
    using update_snippets_length [of "run_updates m bs" cs] assms(1)
    by (simp add: snoc run_updates_snoc)
qed

text \<open>
  C3. A window built by the constructor with a size \<open>k\<close> that is not negative, after any
  sequence of updates with arbitrary retrieval results: \<^verbatim>\<open>snippets\<close> holds at most
  \<open>k\<close> blocks, and no block twice.
\<close>

theorem window_invariant:
  assumes "SnippetsBufferWindowMemory_init k (Some i) = Inr m0" and "0 \<le> k"
  shows "int (length (self_snippets (run_updates m0 batches))) \<le> k
       \<and> distinct (self_snippets (run_updates m0 batches))"
proof -
  from assms(1) have m0: "self_snippets m0 = []" "self_pages m0 = []" "self_k m0 = k"
    by (auto simp: SnippetsBufferWindowMemory_init_def)
  have "int (length (self_snippets (run_updates m0 batches))) \<le> self_k m0"
    using run_updates_length [of m0 batches] assms(2) by (simp add: m0)
  moreover have "distinct (self_snippets (run_updates m0 batches))"
    by (rule run_updates_distinct) (simp add: m0)
  ultimately show ?thesis by (simp add: m0)
qed

theorem window_invariant_witness:
  "SnippetsBufferWindowMemory_init 2 (Some ()) = Inr window2
   \<and> self_snippets (run_updates window2 [[docA, docB, docA], [docC, docB]])
       = [snippet_to_add docC, snippet_to_add docB]
   \<and> int (length (self_snippets (run_updates window2 [[docA, docB, docA], [docC, docB]]))) \<le> 2
   \<and> distinct (self_snippets (run_updates window2 [[docA, docB, docA], [docC, docB]]))"
proof -
  have i: "SnippetsBufferWindowMemory_init 2 (Some ()) = Inr window2"
    by (simp add: SnippetsBufferWindowMemory_init_def window2_def)
  have e: "self_snippets (run_updates window2 [[docA, docB, docA], [docC, docB]])
       = [snippet_to_add docC, snippet_to_add docB]"
    by code_simp
  from window_invariant [OF i, of "[[docA, docB, docA], [docC, docB]]"] i e
  show ?thesis by simp
qed

section \<open>A block determines its page\<close>

lemma digit_char_cases:
  "d < 10 \<Longrightarrow> d = 0 \<or> d = 1 \<or> d = 2 \<or> d = 3 \<or> d = 4 \<or> d = 5 \<or> d = 6 \<or> d = 7 \<or> d = 8 \<or> d = (9::nat)"
  by arith

lemma digit_val_digit_char: "d < 10 \<Longrightarrow> digit_val (digit_char d) = d"
  using digit_char_cases [of d] by (auto simp: digit_val_def digit_char_def)

lemma digit_char_not_sign: "d < 10 \<Longrightarrow> digit_char d \<noteq> CHR ''-'' \<and> digit_char d \<noteq> CHR ''_''"
  using digit_char_cases [of d] by (auto simp: digit_char_def)

lemma str_nat_chars: "c \<in> set (str_nat n) \<Longrightarrow> c \<noteq> CHR ''-'' \<and> c \<noteq> CHR ''_''"
proof (induction n rule: str_nat.induct)
  case (1 n)
  show ?case
  proof (cases "n < 10")
    case True
    with "1.prems" show ?thesis
      by (simp add: str_nat.simps [of n] digit_char_not_sign)
  next
    case False
    with "1.prems" have "c \<in> set (str_nat (n div 10)) \<or> c = digit_char (n mod 10)"
      by (auto simp: str_nat.simps [of n])
    then show ?thesis
      using "1.IH" [OF False] digit_char_not_sign [of "n mod 10"] by auto
  qed
qed

lemma str_nat_not_Nil: "str_nat n \<noteq> []"
  by (subst str_nat.simps) simp

lemma parse_nat_snoc: "parse_nat (s @ [c]) = 10 * parse_nat s + digit_val c"
  by (simp add: parse_nat_def)

lemma parse_nat_str_nat: "parse_nat (str_nat n) = n"
proof (induction n rule: str_nat.induct)
  case (1 n)
  show ?case
  proof (cases "n < 10")
    case True
    then show ?thesis
      by (simp add: str_nat.simps [of n] parse_nat_def digit_val_digit_char)
  next
    case False
    then show ?thesis
      using "1.IH" [OF False]
      by (simp add: str_nat.simps [of n] parse_nat_snoc digit_val_digit_char)
  qed
qed

lemma parse_int_str_int: "parse_int (str_int i) = i"
proof (cases "i < 0")
  case True
  then show ?thesis by (simp add: str_int_def parse_int_def parse_nat_str_nat)
next
  case False
  obtain c r where cr: "str_nat (nat i) = c # r"
    using str_nat_not_Nil [of "nat i"] by (cases "str_nat (nat i)") auto
  then have "c \<in> set (str_nat (nat i))" by simp
  then have "c \<noteq> CHR ''-''" using str_nat_chars by blast
  moreover have "parse_nat (c # r) = nat i"
    using parse_nat_str_nat [of "nat i"] by (simp add: cr)
  ultimately show ?thesis using False by (simp add: str_int_def parse_int_def cr)
qed

lemma str_int_no_underscore: "c \<in> set (str_int i) \<Longrightarrow> c \<noteq> CHR ''_''"
  using str_nat_chars by (auto simp: str_int_def split: if_splits)

lemma page_of_block_snippet_to_add: "page_of_block (snippet_to_add d) = metadata_page d"
proof -
  let ?s = "str_int (metadata_page d + 1)"
  obtain x where x: "snippet_to_add d = x @ ''<END_SNIPPET_PAGE'' @ CHR ''_'' # ?s @ ''>'' @ newline"
    by (simp add: snippet_to_add_def Let_def)
  have "drop 2 (rev (snippet_to_add d)) = rev ?s @ CHR ''_'' # (rev ''<END_SNIPPET_PAGE'' @ rev x)"
    by (simp add: x)
  moreover have "\<forall>c\<in>set (rev ?s). c \<noteq> CHR ''_''"
    using str_int_no_underscore by auto
  ultimately have "takeWhile (\<lambda>c. c \<noteq> CHR ''_'') (drop 2 (rev (snippet_to_add d))) = rev ?s"
    by (simp add: takeWhile_tail)
  then show ?thesis by (simp add: page_of_block_def parse_int_str_int)
qed

lemma snippet_to_add_page:
  "snippet_to_add d = snippet_to_add d' \<Longrightarrow> metadata_page d = metadata_page d'"
  using page_of_block_snippet_to_add [of d] page_of_block_snippet_to_add [of d'] by simp

section \<open>Pages and snippets stay in step\<close>

lemma update_snippets_synced:
  assumes "set ds \<subseteq> D" "self_snippets m = map snippet_to_add ds"
    "self_pages m = map metadata_page ds"
  shows "\<exists>ds'. set ds' \<subseteq> D \<union> set cs
           \<and> self_snippets (update_snippets m cs) = map snippet_to_add ds'
           \<and> self_pages (update_snippets m cs) = map metadata_page ds'"
proof -
  let ?N = "new_docs (self_snippets m) cs"
  let ?ds = "slice_to (rev ?N @ ds) (self_k m)"
  have "set ?ds \<subseteq> set (rev ?N @ ds)" by (rule set_slice_to)
  also have "\<dots> \<subseteq> D \<union> set cs"
    using assms(1) new_docs_subset [of "self_snippets m" cs] by auto
  finally have "set ?ds \<subseteq> D \<union> set cs" .
  moreover have "self_snippets (update_snippets m cs) = map snippet_to_add ?ds"
    by (simp add: update_snippets_snippets assms(2) rev_map flip: slice_to_map)
  moreover have "self_pages (update_snippets m cs) = map metadata_page ?ds"
    by (simp add: update_snippets_pages assms(3) rev_map flip: slice_to_map)
  ultimately show ?thesis by blast
qed

lemma run_updates_synced:
  assumes "self_snippets m = []" "self_pages m = []"
  shows "\<exists>ds. set ds \<subseteq> set (concat batches)
           \<and> self_snippets (run_updates m batches) = map snippet_to_add ds
           \<and> self_pages (run_updates m batches) = map metadata_page ds"
proof (induction batches rule: rev_induct)
  case Nil
  show ?case by (simp add: run_updates_def assms)
next
  case (snoc cs batches)
  then obtain ds where ds: "set ds \<subseteq> set (concat batches)"
    "self_snippets (run_updates m batches) = map snippet_to_add ds"
    "self_pages (run_updates m batches) = map metadata_page ds"
    by blast
  from update_snippets_synced [OF ds, of cs] show ?case
    by (simp add: run_updates_snoc)
qed

text \<open>
  C9. A window built by the constructor, after any sequence of updates: \<^verbatim>\<open>pages\<close> and
  \<^verbatim>\<open>snippets\<close> have the same length; the block at each position is the block of a
  retrieved document whose page is the page at the same position; and since a block
  determines its page, every document that formats to the block at a position has
  the page at that position.
\<close>

theorem pages_follow_snippets:
  assumes "SnippetsBufferWindowMemory_init k (Some i) = Inr m0"
  shows "length (self_pages (run_updates m0 batches))
           = length (self_snippets (run_updates m0 batches))
       \<and> (\<forall>j < length (self_snippets (run_updates m0 batches)).
             (\<exists>d \<in> set (concat batches).
                self_snippets (run_updates m0 batches) ! j = snippet_to_add d
                \<and> self_pages (run_updates m0 batches) ! j = metadata_page d)
             \<and> (\<forall>d. snippet_to_add d = self_snippets (run_updates m0 batches) ! j
                  \<longrightarrow> metadata_page d = self_pages (run_updates m0 batches) ! j))"
proof -
  from assms have "self_snippets m0 = []" "self_pages m0 = []"
    by (auto simp: SnippetsBufferWindowMemory_init_def)
  from run_updates_synced [OF this, of batches]
  obtain ds where ds: "set ds \<subseteq> set (concat batches)"
    "self_snippets (run_updates m0 batches) = map snippet_to_add ds"
    "self_pages (run_updates m0 batches) = map metadata_page ds"
    by blast
  have len: "length (self_pages (run_updates m0 batches))
               = length (self_snippets (run_updates m0 batches))"
    by (simp add: ds)
  have pos: "(\<exists>d \<in> set (concat batches).
                self_snippets (run_updates m0 batches) ! j = snippet_to_add d
                \<and> self_pages (run_updates m0 batches) ! j = metadata_page d)
             \<and> (\<forall>d. snippet_to_add d = self_snippets (run_updates m0 batches) ! j
                  \<longrightarrow> metadata_page d = self_pages (run_updates m0 batches) ! j)"
    if j: "j < length (self_snippets (run_updates m0 batches))" for j
  proof -
    from j have jd: "j < length ds" by (simp add: ds)
    then have "ds ! j \<in> set (concat batches)" using ds(1) nth_mem by blast
    moreover have "self_snippets (run_updates m0 batches) ! j = snippet_to_add (ds ! j)"
      "self_pages (run_updates m0 batches) ! j = metadata_page (ds ! j)"
      using jd by (simp_all add: ds)
    ultimately show ?thesis using snippet_to_add_page by metis
  qed
  from len pos show ?thesis by blast
qed

theorem pages_follow_snippets_witness:
  "SnippetsBufferWindowMemory_init 2 (Some ()) = Inr window2
   \<and> self_snippets (run_updates window2 [[docA, docB, docA], [docC, docB]])
       = [snippet_to_add docC, snippet_to_add docB]
   \<and> length (self_pages (run_updates window2 [[docA, docB, docA], [docC, docB]])) = 2
   \<and> self_pages (run_updates window2 [[docA, docB, docA], [docC, docB]]) ! 0
       = metadata_page docC
   \<and> self_pages (run_updates window2 [[docA, docB, docA], [docC, docB]]) ! 1
       = metadata_page docB"
proof -
  let ?m = "run_updates window2 [[docA, docB, docA], [docC, docB]]"
  have i: "SnippetsBufferWindowMemory_init 2 (Some ()) = Inr window2"
    by (simp add: SnippetsBufferWindowMemory_init_def window2_def)
  have s: "self_snippets ?m = [snippet_to_add docC, snippet_to_add docB]"
    by code_simp
  note T = pages_follow_snippets [OF i, of "[[docA, docB, docA], [docC, docB]]"]
  from T have l: "length (self_pages ?m) = 2"
    by (simp add: s)
  have n: "0 < length (self_snippets ?m)" "1 < length (self_snippets ?m)"
    by (simp_all add: s)
  from T [THEN conjunct2, rule_format, OF n(1), THEN conjunct2, rule_format, of docC]
  have p0: "self_pages ?m ! 0 = metadata_page docC"
    by (simp add: s)
  from T [THEN conjunct2, rule_format, OF n(2), THEN conjunct2, rule_format, of docB]
  have p1: "self_pages ?m ! 1 = metadata_page docB"
    by (simp add: s)
  from i s l p0 p1 show ?thesis by simp
qed

section \<open>The double reversal against the stack restatement\<close>

lemma slice_to_zip:
  "length xs = length ys \<Longrightarrow> slice_to (zip xs ys) k = zip (slice_to xs k) (slice_to ys k)"
  by (simp add: slice_to_def take_zip)

lemma push_new_unique_zip:
  assumes "length P = length H"
  shows "push_new_unique cs (zip P H)
           = zip (rev (map metadata_page (new_docs H cs)) @ P)
                 (rev (map snippet_to_add (new_docs H cs)) @ H)"
  using assms
proof (induction cs arbitrary: P H)
  case Nil
  show ?case by simp
next
  case (Cons c cs)
  have img: "snd ` set (zip P H) = set H"
    using Cons.prems by (simp add: set_zip_rightD map_snd_zip flip: set_map)
  show ?case
  proof (cases "snippet_to_add c \<in> set H")
    case True
    then show ?thesis using Cons.IH [OF Cons.prems] img by simp
  next
    case False
    have l: "length (metadata_page c # P) = length (snippet_to_add c # H)"
      using Cons.prems by simp
    have n: "new_docs (H @ [snippet_to_add c]) cs = new_docs (snippet_to_add c # H) cs"
      by (rule new_docs_cong) simp
    from False show ?thesis
      using Cons.IH [OF l] img by (simp add: n)
  qed
qed

text \<open>
  C5. For every window whose \<^verbatim>\<open>pages\<close> and \<^verbatim>\<open>snippets\<close> are in step and whose size
  is not negative, and every retrieval result: the (page, block) pairs that the
  implemented merge leaves (reverse, append what is new, reverse, slice) are the pairs of
  the stack restatement (push each new unique document onto the front in retrieval
  order, keep the first \<open>k\<close>); the two lists stay in step, so the pairs determine both.
\<close>

theorem double_reversal_is_stack_merge:
  assumes "length (self_pages m) = length (self_snippets m)" and "0 \<le> self_k m"
  shows "zip (self_pages (update_snippets m cs)) (self_snippets (update_snippets m cs))
           = stack_merge (zip (self_pages m) (self_snippets m)) cs (self_k m)
       \<and> length (self_pages (update_snippets m cs))
           = length (self_snippets (update_snippets m cs))"
proof -
  let ?N = "new_docs (self_snippets m) cs"
  let ?P = "rev (map metadata_page ?N) @ self_pages m"
  let ?H = "rev (map snippet_to_add ?N) @ self_snippets m"
  have l: "length ?P = length ?H" using assms(1) by simp
  have "zip (slice_to ?P (self_k m)) (slice_to ?H (self_k m))
          = slice_to (zip ?P ?H) (self_k m)"
    by (rule slice_to_zip [OF l, symmetric])
  also have "\<dots> = take (nat (self_k m)) (zip ?P ?H)"
    by (rule slice_to_nonneg [OF assms(2)])
  finally have "zip (slice_to ?P (self_k m)) (slice_to ?H (self_k m))
          = take (nat (self_k m)) (zip ?P ?H)" .
  moreover have "length (slice_to ?P (self_k m)) = length (slice_to ?H (self_k m))"
    using l by (simp add: slice_to_def)
  ultimately show ?thesis
    by (simp add: update_snippets_snippets update_snippets_pages stack_merge_def
        push_new_unique_zip [OF assms(1)])
qed

theorem double_reversal_is_stack_merge_witness:
  "zip (self_pages (update_snippets (update_snippets window2 [docA, docB]) [docB, docC]))
       (self_snippets (update_snippets (update_snippets window2 [docA, docB]) [docB, docC]))
     = stack_merge [(9, snippet_to_add docB), (0, snippet_to_add docA)] [docB, docC] 2
   \<and> stack_merge [(9, snippet_to_add docB), (0, snippet_to_add docA)] [docB, docC] 2
     = [(41, snippet_to_add docC), (9, snippet_to_add docB)]"
proof -
  let ?m = "update_snippets window2 [docA, docB]"
  have s: "self_snippets ?m = [snippet_to_add docB, snippet_to_add docA]"
    by code_simp
  have p: "self_pages ?m = [9, 0]"
    by code_simp
  have k: "self_k window2 = 2"
    by (simp add: window2_def)
  have e: "stack_merge [(9, snippet_to_add docB), (0, snippet_to_add docA)] [docB, docC] 2
     = [(41, snippet_to_add docC), (9, snippet_to_add docB)]"
    by code_simp
  from double_reversal_is_stack_merge [of ?m "[docB, docC]"] e
  show ?thesis by (simp add: s p k)
qed

section \<open>Blocks that are already held\<close>

lemma slice_to_append_old:
  "\<exists>new j. slice_to (xs @ ys) k = new @ take j ys \<and> set new \<subseteq> set xs"
proof -
  obtain n where "slice_to (xs @ ys) k = take n (xs @ ys)"
    using slice_to_is_take by blast
  then have "slice_to (xs @ ys) k = take n xs @ take (n - length xs) ys"
    by simp
  moreover have "set (take n xs) \<subseteq> set xs" by (rule set_take_subset)
  ultimately show ?thesis by blast
qed

text \<open>
  C4. For every window and every retrieval result, the blocks held after the update are
  some blocks that were not held before, followed by a prefix of the blocks held
  before: what was held keeps its order and is not added a second time. With
  \<open>k = 2\<close>, held blocks \<open>[A, B]\<close> and a retrieval \<open>[B, C]\<close>, where \<open>C\<close> is new, the window
  holds \<open>[C, A]\<close> afterwards, and the pages follow.
\<close>

theorem held_not_readded:
  "(\<exists>new j. self_snippets (update_snippets m cs) = new @ take j (self_snippets m)
        \<and> set new \<inter> set (self_snippets m) = {}
        \<and> set new \<subseteq> snippet_to_add ` set cs)
   \<and> (self_k m = 2 \<and> self_snippets m = [snippet_to_add a, snippet_to_add b]
        \<and> self_pages m = [metadata_page a, metadata_page b]
        \<and> snippet_to_add c \<notin> {snippet_to_add a, snippet_to_add b}
      \<longrightarrow> self_snippets (update_snippets m [b, c]) = [snippet_to_add c, snippet_to_add a]
        \<and> self_pages (update_snippets m [b, c]) = [metadata_page c, metadata_page a])"
proof
  let ?N = "map snippet_to_add (new_docs (self_snippets m) cs)"
  obtain new j where nj: "slice_to (rev ?N @ self_snippets m) (self_k m)
      = new @ take j (self_snippets m)" "set new \<subseteq> set (rev ?N)"
    using slice_to_append_old [of "rev ?N" "self_snippets m" "self_k m"] by blast
  have "set new \<inter> set (self_snippets m) = {}"
    using nj(2) new_docs_fresh [of _ "self_snippets m" cs] by auto
  moreover have "set new \<subseteq> snippet_to_add ` set cs"
    using nj(2) new_docs_subset [of "self_snippets m" cs] by auto
  ultimately show "\<exists>new j. self_snippets (update_snippets m cs) = new @ take j (self_snippets m)
        \<and> set new \<inter> set (self_snippets m) = {}
        \<and> set new \<subseteq> snippet_to_add ` set cs"
    using nj(1) unfolding update_snippets_snippets by blast
next
  show "self_k m = 2 \<and> self_snippets m = [snippet_to_add a, snippet_to_add b]
        \<and> self_pages m = [metadata_page a, metadata_page b]
        \<and> snippet_to_add c \<notin> {snippet_to_add a, snippet_to_add b}
      \<longrightarrow> self_snippets (update_snippets m [b, c]) = [snippet_to_add c, snippet_to_add a]
        \<and> self_pages (update_snippets m [b, c]) = [metadata_page c, metadata_page a]"
    by (simp add: update_snippets_snippets update_snippets_pages slice_to_def)
qed

theorem held_not_readded_witness:
  "self_snippets (update_snippets window2 [docB, docA]) = [snippet_to_add docA, snippet_to_add docB]
   \<and> self_pages (update_snippets window2 [docB, docA]) = [metadata_page docA, metadata_page docB]
   \<and> self_snippets (update_snippets (update_snippets window2 [docB, docA]) [docB, docC])
       = [snippet_to_add docC, snippet_to_add docA]
   \<and> self_pages (update_snippets (update_snippets window2 [docB, docA]) [docB, docC])
       = [metadata_page docC, metadata_page docA]"
proof -
  let ?m = "update_snippets window2 [docB, docA]"
  have s: "self_snippets ?m = [snippet_to_add docA, snippet_to_add docB]"
    by code_simp
  have p: "self_pages ?m = [metadata_page docA, metadata_page docB]"
    by code_simp
  have k: "self_k window2 = 2"
    by (simp add: window2_def)
  have n: "snippet_to_add docC \<noteq> snippet_to_add docA" "snippet_to_add docC \<noteq> snippet_to_add docB"
    by code_simp+
  from held_not_readded [of ?m "[]" docA docB docC, THEN conjunct2] s p k n
  show ?thesis by simp
qed

section \<open>Duplicates within one retrieval result\<close>

lemma first_occurrences_Cons:
  "first_occurrences S (c # cs) =
     (if snippet_to_add c \<in> set S then map Suc (first_occurrences S cs)
      else 0 # map Suc (first_occurrences (S @ [snippet_to_add c]) cs))"
proof -
  have u: "[0..<length (c # cs)] = 0 # map Suc [0..<length cs]"
    by (simp add: upt_conv_Cons map_Suc_upt del: upt_Suc)
  show ?thesis
  proof (cases "snippet_to_add c \<in> set S")
    case True
    then have "\<And>i. (snippet_to_add (cs ! i) \<notin> set S
          \<and> (\<forall>j<Suc i. snippet_to_add ((c # cs) ! j) \<noteq> snippet_to_add (cs ! i)))
        = (snippet_to_add (cs ! i) \<notin> set S
          \<and> (\<forall>j<i. snippet_to_add (cs ! j) \<noteq> snippet_to_add (cs ! i)))"
      by (auto simp: All_less_Suc2)
    with True show ?thesis
      unfolding first_occurrences_def u by (simp add: filter_map o_def)
  next
    case False
    have "\<And>i. (snippet_to_add (cs ! i) \<notin> set S
          \<and> (\<forall>j<Suc i. snippet_to_add ((c # cs) ! j) \<noteq> snippet_to_add (cs ! i)))
        = (snippet_to_add (cs ! i) \<notin> set (S @ [snippet_to_add c])
          \<and> (\<forall>j<i. snippet_to_add (cs ! j) \<noteq> snippet_to_add (cs ! i)))"
      by (auto simp: All_less_Suc2)
    with False show ?thesis
      unfolding first_occurrences_def u by (simp add: filter_map o_def)
  qed
qed

lemma new_docs_first_occurrences:
  "new_docs S cs = map (\<lambda>i. cs ! i) (first_occurrences S cs)"
proof (induction cs arbitrary: S)
  case Nil
  show ?case by (simp add: first_occurrences_def)
next
  case (Cons c cs)
  show ?case
    by (simp add: first_occurrences_Cons Cons.IH o_def)
qed

text \<open>
  C10. For every window and every retrieval result \<open>cs\<close>, the loop appends to
  \<^verbatim>\<open>snippets\<close> and \<^verbatim>\<open>pages\<close> exactly the blocks and pages of the documents at the
  positions \<open>i\<close> of \<open>cs\<close> whose block was not held when the loop started and is not
  the block of an earlier position \<open>j < i\<close> of the same result, in retrieval order: of
  several documents of one result with the same block only the first is added. The
  update then holds these, reversed, in front of what was held, sliced to \<open>k\<close>.
\<close>

theorem only_first_of_batch_added:
  "self_snippets (add_similar_snippets cs m)
     = self_snippets m
       @ map (\<lambda>i. snippet_to_add (cs ! i)) (first_occurrences (self_snippets m) cs)
   \<and> self_pages (add_similar_snippets cs m)
     = self_pages m
       @ map (\<lambda>i. metadata_page (cs ! i)) (first_occurrences (self_snippets m) cs)
   \<and> self_snippets (update_snippets m cs)
     = slice_to (rev (map (\<lambda>i. snippet_to_add (cs ! i)) (first_occurrences (self_snippets m) cs))
                 @ self_snippets m) (self_k m)
   \<and> self_pages (update_snippets m cs)
     = slice_to (rev (map (\<lambda>i. metadata_page (cs ! i)) (first_occurrences (self_snippets m) cs))
                 @ self_pages m) (self_k m)"
  by (simp add: add_similar_snippets_snippets add_similar_snippets_pages
      update_snippets_snippets update_snippets_pages new_docs_first_occurrences o_def)

theorem only_first_of_batch_added_witness:
  "first_occurrences [] [docA, docB, docA, docB, docC] = [0, 1, 4]
   \<and> self_snippets (add_similar_snippets [docA, docB, docA, docB, docC] window2)
       = [snippet_to_add docA, snippet_to_add docB, snippet_to_add docC]
   \<and> self_pages (add_similar_snippets [docA, docB, docA, docB, docC] window2)
       = [metadata_page docA, metadata_page docB, metadata_page docC]
   \<and> self_snippets (update_snippets window2 [docA, docB, docA, docB, docC])
       = [snippet_to_add docC, snippet_to_add docB]"
proof -
  have f: "first_occurrences [] [docA, docB, docA, docB, docC] = [0, 1, 4]"
    by code_simp
  have w: "self_snippets window2 = []" "self_pages window2 = []" "self_k window2 = 2"
    by (simp_all add: window2_def)
  from only_first_of_batch_added [of "[docA, docB, docA, docB, docC]" window2]
  show ?thesis by (simp add: w f slice_to_def)
qed

section \<open>Repeating an update\<close>

lemma update_snippets_all_held:
  assumes "snippet_to_add ` set cs \<subseteq> set (self_snippets m)"
    and "int (length (self_snippets m)) \<le> self_k m"
    and "int (length (self_pages m)) \<le> self_k m"
  shows "update_snippets m cs = m"
proof -
  have "new_docs (self_snippets m) cs = []"
    using assms(1) by (simp add: new_docs_Nil_iff)
  then have "self_snippets (update_snippets m cs) = self_snippets m"
    "self_pages (update_snippets m cs) = self_pages m"
    using assms(2,3) by (simp_all add: update_snippets_snippets update_snippets_pages slice_to_fits)
  then show ?thesis by simp
qed

lemma update_snippets_some_new:
  assumes "\<not> snippet_to_add ` set cs \<subseteq> set (self_snippets m)" and "0 < self_k m"
  shows "self_snippets (update_snippets m cs) \<noteq> self_snippets m"
proof
  let ?N = "map snippet_to_add (new_docs (self_snippets m) cs)"
  assume eq: "self_snippets (update_snippets m cs) = self_snippets m"
  have "?N \<noteq> []"
    using assms(1) by (simp add: new_docs_Nil_iff)
  then obtain b bs where bs: "rev ?N = b # bs"
    by (cases "rev ?N") auto
  then have "b \<in> set ?N"
    by (metis list.set_intros(1) set_rev)
  then have fresh: "b \<notin> set (self_snippets m)"
    using new_docs_fresh [of _ "self_snippets m" cs] by auto
  obtain n where n: "nat (self_k m) = Suc n"
    using assms(2) by (cases "nat (self_k m)") auto
  have "self_snippets (update_snippets m cs) = b # take n (bs @ self_snippets m)"
    using assms(2) by (simp add: update_snippets_snippets slice_to_def bs n)
  with eq have "b \<in> set (self_snippets m)"
    by (metis list.set_intros(1))
  with fresh show False by simp
qed

text \<open>
  C2, as the code has it. For a window size that is not negative, an update repeated
  with the same retrieval result leaves the object as the first update left it exactly
  when the size is zero or every retrieved block is held after the first update, that
  is, when the slice of the first update dropped none of them.
\<close>

theorem repeated_update_unchanged_iff:
  assumes "0 \<le> self_k m"
  shows "update_snippets (update_snippets m cs) cs = update_snippets m cs
     \<longleftrightarrow> self_k m = 0
         \<or> snippet_to_add ` set cs \<subseteq> set (self_snippets (update_snippets m cs))"
proof (cases "snippet_to_add ` set cs \<subseteq> set (self_snippets (update_snippets m cs))")
  case True
  have "update_snippets (update_snippets m cs) cs = update_snippets m cs"
    using True update_snippets_length [OF assms, of cs]
    by (intro update_snippets_all_held) simp_all
  with True show ?thesis by simp
next
  case False
  show ?thesis
  proof (cases "self_k m = 0")
    case True
    have "self_snippets (update_snippets (update_snippets m cs) cs) = []"
      "self_pages (update_snippets (update_snippets m cs) cs) = []"
      "self_snippets (update_snippets m cs) = []"
      "self_pages (update_snippets m cs) = []"
      by (simp_all add: update_snippets_snippets update_snippets_pages slice_to_def True)
    then have "update_snippets (update_snippets m cs) cs = update_snippets m cs"
      by simp
    with True show ?thesis by simp
  next
    case k: False
    with assms have "0 < self_k (update_snippets m cs)" by simp
    from update_snippets_some_new [OF False this]
    have "update_snippets (update_snippets m cs) cs \<noteq> update_snippets m cs"
      by auto
    with False k show ?thesis by simp
  qed
qed

theorem repeated_update_unchanged_iff_witness:
  "update_snippets (update_snippets window2 [docA, docB, docA]) [docA, docB, docA]
     = update_snippets window2 [docA, docB, docA]
   \<and> self_snippets (update_snippets window2 [docA, docB, docA])
     = [snippet_to_add docB, snippet_to_add docA]"
proof -
  have s: "self_snippets (update_snippets window2 [docA, docB, docA])
     = [snippet_to_add docB, snippet_to_add docA]"
    by code_simp
  have k: "self_k window2 = 2"
    by (simp add: window2_def)
  from repeated_update_unchanged_iff [of window2 "[docA, docB, docA]"] s
  show ?thesis by (simp add: k)
qed

text \<open>
  C2, as stated, fails where the first update drops a retrieved block: with \<open>k = 2\<close>
  and the retrieval \<open>[A, B, C]\<close> twice, the window holds \<open>[C, B]\<close> after the first
  update and \<open>[A, C]\<close> after the second.
\<close>

theorem repeated_update_counterexample:
  "self_snippets (update_snippets window2 [docA, docB, docC])
     = [snippet_to_add docC, snippet_to_add docB]
   \<and> self_snippets (update_snippets (update_snippets window2 [docA, docB, docC])
        [docA, docB, docC])
     = [snippet_to_add docA, snippet_to_add docC]
   \<and> self_snippets (update_snippets (update_snippets window2 [docA, docB, docC])
        [docA, docB, docC])
     \<noteq> self_snippets (update_snippets window2 [docA, docB, docC])"
proof -
  have a: "self_snippets (update_snippets window2 [docA, docB, docC])
     = [snippet_to_add docC, snippet_to_add docB]"
    by code_simp
  have b: "self_snippets (update_snippets (update_snippets window2 [docA, docB, docC])
        [docA, docB, docC])
     = [snippet_to_add docA, snippet_to_add docC]"
    by code_simp
  have c: "snippet_to_add docA \<noteq> snippet_to_add docC"
    by code_simp
  from a b c show ?thesis by simp
qed

section \<open>The format of a block\<close>

lemma snippet_to_add_unfolded:
  "snippet_to_add d =
     (if metadata_title d = metadata_source d then metadata_source d
      else ''['' @ metadata_title d @ '']('' @ metadata_source d @ '')'')
     @ newline @ ''<START_SNIPPET_PAGE_'' @ str_int (metadata_page d + 1) @ ''>''
     @ newline @ page_content d
     @ newline @ ''<END_SNIPPET_PAGE_'' @ str_int (metadata_page d + 1) @ ''>''
     @ newline"
  by (simp add: snippet_to_add_def Let_def)

lemma header_line_append: "CHR 0x0A \<notin> set h \<Longrightarrow> header_line (h @ newline @ rest) = h"
  by (induction h) (auto simp: header_line_def)

text \<open>
  C7. The block of every document is four pieces, each followed by a line break: the
  header, which is the source when title and source are equal and \<open>[title](source)\<close>
  when they differ; the start marker with the decimal rendering of \<open>page + 1\<close>; the
  page content as it is; the end marker with the same number. When title and source
  hold no line break, the header is the first line of the block. The number in the
  markers reads back as \<open>page + 1\<close>.
\<close>

theorem snippet_block_format:
  "snippet_to_add d =
     concat (map (\<lambda>piece. piece @ newline)
       [if metadata_title d = metadata_source d then metadata_source d
        else ''['' @ metadata_title d @ '']('' @ metadata_source d @ '')'',
        ''<START_SNIPPET_PAGE_'' @ str_int (metadata_page d + 1) @ ''>'',
        page_content d,
        ''<END_SNIPPET_PAGE_'' @ str_int (metadata_page d + 1) @ ''>''])
   \<and> (CHR 0x0A \<notin> set (metadata_title d) \<union> set (metadata_source d) \<longrightarrow>
        header_line (snippet_to_add d) =
          (if metadata_title d = metadata_source d then metadata_source d
           else ''['' @ metadata_title d @ '']('' @ metadata_source d @ '')''))
   \<and> parse_int (str_int (metadata_page d + 1)) = metadata_page d + 1"
proof (intro conjI impI)
  show "snippet_to_add d =
     concat (map (\<lambda>piece. piece @ newline)
       [if metadata_title d = metadata_source d then metadata_source d
        else ''['' @ metadata_title d @ '']('' @ metadata_source d @ '')'',
        ''<START_SNIPPET_PAGE_'' @ str_int (metadata_page d + 1) @ ''>'',
        page_content d,
        ''<END_SNIPPET_PAGE_'' @ str_int (metadata_page d + 1) @ ''>''])"
    by (simp add: snippet_to_add_def Let_def)
next
  assume nl: "CHR 0x0A \<notin> set (metadata_title d) \<union> set (metadata_source d)"
  let ?h = "if metadata_title d = metadata_source d then metadata_source d
           else ''['' @ metadata_title d @ '']('' @ metadata_source d @ '')''"
  have "CHR 0x0A \<notin> set ?h" using nl by simp
  from header_line_append [OF this] show "header_line (snippet_to_add d) = ?h"
    unfolding snippet_to_add_unfolded [of d] .
next
  show "parse_int (str_int (metadata_page d + 1)) = metadata_page d + 1"
    by (rule parse_int_str_int)
qed

theorem snippet_block_format_witness:
  "header_line (snippet_to_add docA) = ''a.pdf''
   \<and> header_line (snippet_to_add docB) = ''[Book B](b.pdf)''
   \<and> snippet_to_add docB
      = ''[Book B](b.pdf)'' @ newline @ ''<START_SNIPPET_PAGE_10>'' @ newline
        @ ''beta'' @ newline @ ''<END_SNIPPET_PAGE_10>'' @ newline"
proof -
  have n: "str_int 10 = ''10''"
    by code_simp
  have fa: "metadata_title docA = ''a.pdf''" "metadata_source docA = ''a.pdf''"
    by (simp_all add: docA_def)
  have fb: "metadata_title docB = ''Book B''" "metadata_source docB = ''b.pdf''"
    "metadata_page docB = 9" "page_content docB = ''beta''"
    by (simp_all add: docB_def)
  have a: "header_line (snippet_to_add docA) = ''a.pdf''"
    using snippet_block_format [of docA, THEN conjunct2, THEN conjunct1] by (simp add: fa)
  have b: "header_line (snippet_to_add docB) = ''[Book B](b.pdf)''"
    using snippet_block_format [of docB, THEN conjunct2, THEN conjunct1] by (simp add: fb)
  have c: "snippet_to_add docB
      = ''[Book B](b.pdf)'' @ newline @ ''<START_SNIPPET_PAGE_10>'' @ newline
        @ ''beta'' @ newline @ ''<END_SNIPPET_PAGE_10>'' @ newline"
    using snippet_block_format [of docB, THEN conjunct1] by (simp add: fb n)
  from a b c show ?thesis by simp
qed

section \<open>The window size at construction\<close>

text \<open>
  C8, as the code has it. The constructor does not look at the window size: for every
  integer \<open>k\<close>, positive or not, construction with an index succeeds and stores \<open>k\<close>
  as given, with nothing held; the only error of the constructor is the \<^verbatim>\<open>KeyError\<close>
  of a missing index. The size stays as constructed through every update, and the
  window works with it by the slice \<^verbatim>\<open>[:k]\<close>: a window of size zero holds nothing
  after an update. The application itself constructs the window with the size 3.
\<close>

theorem window_size_not_validated:
  "(\<exists>m. SnippetsBufferWindowMemory_init k (Some i) = Inr m
        \<and> self_k m = k \<and> self_index m = i \<and> self_snippets m = [] \<and> self_pages m = []
        \<and> self_k (run_updates m batches) = k)
   \<and> (SnippetsBufferWindowMemory_init k None :: error + 'i memory) = Inl (KeyError ''index'')
   \<and> (\<exists>m. snippets_memory i = Inr m \<and> self_k m = 3)
   \<and> (self_k w = 0 \<longrightarrow>
         self_snippets (update_snippets w cs) = [] \<and> self_pages (update_snippets w cs) = [])"
  by (simp add: SnippetsBufferWindowMemory_init_def snippets_memory_def
      prompt_number_snippets_def update_snippets_snippets update_snippets_pages slice_to_def)

theorem window_size_not_validated_witness:
  "self_k (window2\<lparr>self_k := 0\<rparr>) = 0
   \<and> self_snippets (update_snippets (window2\<lparr>self_k := 0\<rparr>) [docA, docB]) = []
   \<and> self_pages (update_snippets (window2\<lparr>self_k := 0\<rparr>) [docA, docB]) = []"
  using window_size_not_validated [of 0 "()" "[]" "window2\<lparr>self_k := 0\<rparr>" "[docA, docB]",
      THEN conjunct2, THEN conjunct2, THEN conjunct2]
  by simp

text \<open>
  C8, as stated, fails: construction with the sizes 0 and -1 returns a window, and the
  window of size -1 then drops the last entry of what it merged.
\<close>

theorem window_size_counterexample:
  "SnippetsBufferWindowMemory_init 0 (Some ())
     = Inr \<lparr>self_index = (), self_pages = [], self_snippets = [], self_k = 0\<rparr>
   \<and> SnippetsBufferWindowMemory_init (- 1) (Some ())
     = Inr \<lparr>self_index = (), self_pages = [], self_snippets = [], self_k = - 1\<rparr>
   \<and> self_snippets (update_snippets
         \<lparr>self_index = (), self_pages = [], self_snippets = [], self_k = - 1\<rparr>
         [docA, docB, docC])
     = [snippet_to_add docC, snippet_to_add docB]"
proof -
  have "self_snippets (update_snippets
         \<lparr>self_index = (), self_pages = [], self_snippets = [], self_k = - 1\<rparr>
         [docA, docB, docC])
     = [snippet_to_add docC, snippet_to_add docB]"
    by code_simp
  then show ?thesis
    by (simp add: SnippetsBufferWindowMemory_init_def)
qed

section \<open>The worked example of the recency bias\<close>

lemma first_update_reverses_batch:
  assumes "self_snippets m = []" "self_pages m = []" "self_k m = 2"
    and "snippet_to_add a \<noteq> snippet_to_add b"
  shows "self_snippets (update_snippets m [a, b]) = [snippet_to_add b, snippet_to_add a]"
  using assms by (simp add: update_snippets_snippets slice_to_def)

text \<open>
  C1, evaluated. With \<open>k = 2\<close> and nothing held, the update with the retrieval
  \<open>[A, B]\<close> leaves \<open>[B, A]\<close>: the two blocks are appended in retrieval order and the
  list is then reversed. The update with \<open>[C]\<close> that follows leaves \<open>[C, B]\<close>: the
  block dropped is that of \<open>A\<close>, the more relevant document of the first retrieval.
\<close>

theorem recency_example_evaluated:
  "self_snippets (update_snippets window2 [docA, docB])
     = [snippet_to_add docB, snippet_to_add docA]
   \<and> self_snippets (update_snippets window2 [docA, docB])
     \<noteq> [snippet_to_add docA, snippet_to_add docB]
   \<and> self_snippets (update_snippets (update_snippets window2 [docA, docB]) [docC])
     = [snippet_to_add docC, snippet_to_add docB]
   \<and> self_snippets (update_snippets (update_snippets window2 [docA, docB]) [docC])
     \<noteq> [snippet_to_add docC, snippet_to_add docA]"
proof -
  have a: "self_snippets (update_snippets window2 [docA, docB])
     = [snippet_to_add docB, snippet_to_add docA]"
    by code_simp
  have b: "self_snippets (update_snippets (update_snippets window2 [docA, docB]) [docC])
     = [snippet_to_add docC, snippet_to_add docB]"
    by code_simp
  have c: "snippet_to_add docA \<noteq> snippet_to_add docB"
    by code_simp
  from a b c show ?thesis by auto
qed

end
